theory Spec2Isabelle
  imports Complex_Main
begin

section \<open>The page state the controllers act on\<close>

text \<open>
  The script drives a presentation page: every controller reads attributes of page
  elements and mutates their class lists or text.  Each controller is embedded as a
  function from the part of the page it reads to the part it writes.

  A \<open>classList\<close> is an ordered set of class names: \<open>add\<close> appends a name that is not
  yet there, \<open>remove\<close> deletes it, \<open>contains\<close> tests membership.
\<close>

type_synonym classList = "string list"

definition classList_add :: "string \<Rightarrow> classList \<Rightarrow> classList" where
  "classList_add c cl = (if c \<in> set cl then cl else cl @ [c])"

definition classList_remove :: "string \<Rightarrow> classList \<Rightarrow> classList" where
  "classList_remove c cl = filter (\<lambda>x. x \<noteq> c) cl"

definition classList_contains :: "string \<Rightarrow> classList \<Rightarrow> bool" where
  "classList_contains c cl = (c \<in> set cl)"

text \<open>
  \<open>getAttribute\<close> returns \<open>null\<close> for a missing attribute: an attribute value is a
  \<open>string option\<close>.  The operator \<open>||\<close> on two such values yields the left one unless it
  is falsy (\<open>null\<close> or the empty string), and a template literal prints \<open>null\<close> as the
  four letters.
\<close>

definition js_or :: "string option \<Rightarrow> string option \<Rightarrow> string option" where
  "js_or a b = (case a of None \<Rightarrow> b | Some s \<Rightarrow> if s = [] then b else Some s)"

definition template_str :: "string option \<Rightarrow> string" where
  "template_str a = (case a of None \<Rightarrow> ''null'' | Some s \<Rightarrow> s)"

section \<open>TabController\<close>

record tab_button =
  data_tab :: "string option"
  data_example :: "string option"
  button_classes :: classList

record tab_content =
  content_id :: "string option"
  content_classes :: classList

record TabController =
  tabButtons :: "tab_button list"
  tabContents :: "tab_content list"

definition buttonTabId :: "tab_button \<Rightarrow> string option" where
  "buttonTabId button = js_or (data_tab button) (data_example button)"

definition switch_button :: "string option \<Rightarrow> tab_button \<Rightarrow> tab_button" where
  "switch_button activeTabId button =
     (let b1 = button\<lparr>button_classes := classList_remove ''active'' (button_classes button)\<rparr>
      in if buttonTabId b1 = activeTabId
         then b1\<lparr>button_classes := classList_add ''active'' (button_classes b1)\<rparr>
         else b1)"

definition switch_content :: "string option \<Rightarrow> tab_content \<Rightarrow> tab_content" where
  "switch_content activeTabId content =
     (let c1 = content\<lparr>content_classes := classList_remove ''active'' (content_classes content)\<rparr>;
          contentId = content_id c1
      in if contentId = Some (''tab-'' @ template_str activeTabId)
            \<or> contentId = Some (''example-'' @ template_str activeTabId)
         then c1\<lparr>content_classes := classList_add ''active'' (content_classes c1)\<rparr>
         else c1)"

definition switchTab :: "string option \<Rightarrow> TabController \<Rightarrow> TabController" where
  "switchTab activeTabId this =
     this\<lparr>tabButtons := map (switch_button activeTabId) (tabButtons this),
          tabContents := map (switch_content activeTabId) (tabContents this)\<rparr>"

definition button_active :: "tab_button \<Rightarrow> bool" where
  "button_active b = classList_contains ''active'' (button_classes b)"

definition content_active :: "tab_content \<Rightarrow> bool" where
  "content_active c = classList_contains ''active'' (content_classes c)"

text \<open>
  Two containers used as concrete inputs: a well-formed tab strip, and one in which two
  buttons name the same tab, one button carries both attributes, and the panels of both
  naming schemes are present.
\<close>

definition tabs_demo :: TabController where
  "tabs_demo = \<lparr>tabButtons =
      [\<lparr>data_tab = Some ''tasks'', data_example = None, button_classes = [''tab-btn'', ''active'']\<rparr>,
       \<lparr>data_tab = Some ''reports'', data_example = None, button_classes = [''tab-btn'']\<rparr>],
     tabContents =
      [\<lparr>content_id = Some ''tab-tasks'', content_classes = [''tab-content'', ''active'']\<rparr>,
       \<lparr>content_id = Some ''tab-reports'', content_classes = [''tab-content'']\<rparr>]\<rparr>"

definition tabs_shared :: TabController where
  "tabs_shared = \<lparr>tabButtons =
      [\<lparr>data_tab = Some ''a'', data_example = Some ''b'', button_classes = [''tab-btn'', ''active'']\<rparr>,
       \<lparr>data_tab = Some ''b'', data_example = None, button_classes = [''tab-btn'']\<rparr>,
       \<lparr>data_tab = Some ''b'', data_example = None, button_classes = [''tab-btn'']\<rparr>],
     tabContents =
      [\<lparr>content_id = Some ''tab-b'', content_classes = [''tab-content'']\<rparr>,
       \<lparr>content_id = Some ''example-b'', content_classes = [''example-content'']\<rparr>]\<rparr>"

section \<open>NavigationController: the active link\<close>

text \<open>
  \<open>updateActiveLink\<close> reads \<open>offsetTop\<close>, \<open>offsetHeight\<close> and \<open>id\<close> of every
  \<open>section[id]\<close> in document order, and \<open>window.scrollY\<close>.  Pixel values are numbers;
  they are only added and compared here, and the model does so in the reals.
\<close>

record page_section =
  offsetTop :: real
  offsetHeight :: real
  section_id :: string

record nav_link =
  href :: "string option"
  link_classes :: classList

definition in_window :: "real \<Rightarrow> page_section \<Rightarrow> bool" where
  "in_window scrollPos section =
     (let sectionTop = offsetTop section; sectionHeight = offsetHeight section
      in scrollPos \<ge> sectionTop \<and> scrollPos < sectionTop + sectionHeight)"

definition highlight_link :: "string \<Rightarrow> nav_link \<Rightarrow> nav_link" where
  "highlight_link sectionId link =
     (let l1 = link\<lparr>link_classes := classList_remove ''active'' (link_classes link)\<rparr>
      in if href l1 = Some (''#'' @ sectionId)
         then l1\<lparr>link_classes := classList_add ''active'' (link_classes l1)\<rparr>
         else l1)"

definition updateActiveLink :: "real \<Rightarrow> page_section list \<Rightarrow> nav_link list \<Rightarrow> nav_link list" where
  "updateActiveLink scrollY sections navLinks =
     (let scrollPos = scrollY + 100
      in foldl (\<lambda>links section.
                  if in_window scrollPos section
                  then map (highlight_link (section_id section)) links
                  else links)
           navLinks sections)"

definition link_active :: "nav_link \<Rightarrow> bool" where
  "link_active l = classList_contains ''active'' (link_classes l)"

text \<open>The page of the scroll-tracker example: three sections stacked without gaps.\<close>

definition demo_sections :: "page_section list" where
  "demo_sections =
     [\<lparr>offsetTop = 0, offsetHeight = 300, section_id = ''hero''\<rparr>,
      \<lparr>offsetTop = 300, offsetHeight = 500, section_id = ''features''\<rparr>,
      \<lparr>offsetTop = 800, offsetHeight = 400, section_id = ''contact''\<rparr>]"

definition demo_links :: "nav_link list" where
  "demo_links =
     [\<lparr>href = Some ''#hero'', link_classes = [''nav-link'', ''active'']\<rparr>,
      \<lparr>href = Some ''#features'', link_classes = [''nav-link'']\<rparr>,
      \<lparr>href = Some ''#contact'', link_classes = [''nav-link'']\<rparr>]"

section \<open>FormController\<close>

subsection \<open>Strings of field values\<close>

text \<open>
  A field value is a JavaScript string: a sequence of UTF-16 code units, here natural
  numbers.  \<open>length\<close> counts code units, as \<open>value.length\<close> does.  \<open>js_str\<close> embeds an
  ASCII literal.  White space is what \<open>trim\<close> strips and what \<open>\s\<close> matches: the
  WhiteSpace and LineTerminator code points of ECMAScript.
\<close>

type_synonym jsstring = "nat list"

definition js_str :: "string \<Rightarrow> jsstring" where
  "js_str s = map of_char s"

definition is_white_space :: "nat \<Rightarrow> bool" where
  "is_white_space c =
     (c \<in> {9, 10, 11, 12, 13, 32, 160, 5760, 8232, 8233, 8239, 8287, 12288, 65279}
      \<or> (8192 \<le> c \<and> c \<le> 8202))"

definition trim :: "jsstring \<Rightarrow> jsstring" where
  "trim s = rev (dropWhile is_white_space (rev (dropWhile is_white_space s)))"

subsection \<open>The regular expression of the email rule\<close>

text \<open>
  The pattern \<open>/^[^\s@]+@[^\s@]+\.[^\s@]+$/\<close> is a sequence of items between the anchors
  \<open>^\<close> and \<open>$\<close>; an item is one atom or an atom under \<open>+\<close>; an atom is a literal code
  unit or a negated class.  \<open>matches\<close> is the backtracking search for a match of the
  whole string, and \<open>test\<close> on an anchored pattern without flags is that search.
\<close>

datatype atom = Literal nat | NoneOf "(nat \<Rightarrow> bool) list"

datatype item = Once atom | OneOrMore atom

fun atom_matches :: "atom \<Rightarrow> nat \<Rightarrow> bool" where
  "atom_matches (Literal d) c = (c = d)"
| "atom_matches (NoneOf ps) c = (\<not> list_ex (\<lambda>p. p c) ps)"

fun matches :: "item list \<Rightarrow> jsstring \<Rightarrow> bool" where
  "matches [] s = (s = [])"
| "matches (Once a # r) [] = False"
| "matches (Once a # r) (c # cs) = (atom_matches a c \<and> matches r cs)"
| "matches (OneOrMore a # r) [] = False"
| "matches (OneOrMore a # r) (c # cs) =
     (atom_matches a c \<and> (matches (OneOrMore a # r) cs \<or> matches r cs))"

definition at_sign :: nat where "at_sign = 64"

definition full_stop :: nat where "full_stop = 46"

definition emailRegex :: "item list" where
  "emailRegex =
     [OneOrMore (NoneOf [is_white_space, \<lambda>c. c = at_sign]), Once (Literal at_sign),
      OneOrMore (NoneOf [is_white_space, \<lambda>c. c = at_sign]), Once (Literal full_stop),
      OneOrMore (NoneOf [is_white_space, \<lambda>c. c = at_sign])]"

definition regex_test :: "item list \<Rightarrow> jsstring \<Rightarrow> bool" where
  "regex_test re s = matches re s"

text \<open>
  The shape \<open>local@domain.tld\<close> in the words of the specification: three non-empty runs
  of code units that are neither white space nor \<open>@\<close>, the first two separated by \<open>@\<close>
  and the last two by a full stop.
\<close>

definition plain_run :: "jsstring \<Rightarrow> bool" where
  "plain_run u = (u \<noteq> [] \<and> (\<forall>c\<in>set u. \<not> is_white_space c \<and> c \<noteq> at_sign))"

definition email_shape :: "jsstring \<Rightarrow> bool" where
  "email_shape v =
     (\<exists>local domain tld.
        v = local @ [at_sign] @ domain @ [full_stop] @ tld
        \<and> plain_run local \<and> plain_run domain \<and> plain_run tld)"

subsection \<open>Fields and validation\<close>

datatype field_tag = Input | Select | Textarea

record form_field =
  field_tag :: field_tag
  field_name :: "string option"
  field_required :: bool
  field_value :: jsstring
  default_value :: jsstring
  field_classes :: classList

definition validateField :: "form_field \<Rightarrow> form_field \<times> bool" where
  "validateField field =
     (let v = trim (field_value field);
          fieldName = field_name field;
          f1 = field\<lparr>field_classes := classList_remove ''error'' (field_classes field)\<rparr>;
          isValid =
            (if fieldName = Some ''name'' then length v \<ge> 2
             else if fieldName = Some ''email'' then regex_test emailRegex v
             else if fieldName = Some ''company'' then length v \<ge> 2
             else if fieldName = Some ''team-size'' then v \<noteq> []
             else True);
          f2 = (if \<not> isValid
                then f1\<lparr>field_classes := classList_add ''error'' (field_classes f1)\<rparr>
                else f1)
      in (f2, isValid))"

definition text_input :: "string \<Rightarrow> string \<Rightarrow> form_field" where
  "text_input n v =
     \<lparr>field_tag = Input, field_name = Some n, field_required = True,
      field_value = js_str v, default_value = [], field_classes = []\<rparr>"

subsection \<open>Submission\<close>

text \<open>
  The three banner texts of the script are fixed literals (a request to fill in the
  required fields correctly, a thank-you, and a notice that sending failed); they are
  the constructors of \<open>banner_text\<close>.  A banner is a child of the form with class
  \<open>success-message\<close> or \<open>error-message\<close>; the timer that removes it 5000 time units
  later is not part of this model.

  \<open>handleSubmit\<close> runs in two parts.  \<open>handleSubmit_start\<close> is the part up to the
  \<open>await\<close>: it either returns after showing the error (\<open>Blocked\<close>), or enters the loading
  state and starts the simulated call (\<open>AwaitingApi\<close>).  \<open>handleSubmit_resume\<close> is the part
  that runs when the call settles; its argument is the value \<open>Math.random()\<close> returned
  there.  \<open>api_calls\<close> counts the invocations of \<open>simulateApiCall\<close>.
\<close>

datatype banner_text = FillRequiredFields | ThankYou | SubmitFailed

record banner =
  banner_class :: string
  banner_text :: banner_text

record FormController =
  form_fields :: "form_field list"
  submit_disabled :: bool
  loading_display :: string
  label_display :: string
  banners :: "banner list"
  api_calls :: nat

datatype submit_phase = Blocked FormController | AwaitingApi FormController

definition setLoadingState :: "bool \<Rightarrow> FormController \<Rightarrow> FormController" where
  "setLoadingState isLoading this =
     (if isLoading
      then this\<lparr>submit_disabled := True, loading_display := ''inline'', label_display := ''none''\<rparr>
      else this\<lparr>submit_disabled := False, loading_display := ''none'', label_display := ''inline''\<rparr>)"

definition removeMessages :: "FormController \<Rightarrow> FormController" where
  "removeMessages this =
     this\<lparr>banners := filter (\<lambda>b. banner_class b \<noteq> ''success-message''
                                  \<and> banner_class b \<noteq> ''error-message'') (banners this)\<rparr>"

definition showSuccess :: "banner_text \<Rightarrow> FormController \<Rightarrow> FormController" where
  "showSuccess message this =
     (let t = removeMessages this
      in t\<lparr>banners := banners t @ [\<lparr>banner_class = ''success-message'', banner_text = message\<rparr>]\<rparr>)"

definition showError :: "banner_text \<Rightarrow> FormController \<Rightarrow> FormController" where
  "showError message this =
     (let t = removeMessages this
      in t\<lparr>banners := banners t @ [\<lparr>banner_class = ''error-message'', banner_text = message\<rparr>]\<rparr>)"

definition is_required_input :: "form_field \<Rightarrow> bool" where
  "is_required_input f = (field_required f \<and> (field_tag f = Input \<or> field_tag f = Select))"

definition form_reset :: "FormController \<Rightarrow> FormController" where
  "form_reset this =
     this\<lparr>form_fields := map (\<lambda>f. f\<lparr>field_value := default_value f\<rparr>) (form_fields this)\<rparr>"

definition handleSubmit_start :: "FormController \<Rightarrow> submit_phase" where
  "handleSubmit_start this =
     (let inputs = filter is_required_input (form_fields this);
          isFormValid = foldl (\<lambda>ok input. if \<not> snd (validateField input) then False else ok) True inputs;
          t1 = this\<lparr>form_fields := map (\<lambda>f. if is_required_input f then fst (validateField f) else f)
                                     (form_fields this)\<rparr>
      in if \<not> isFormValid
         then Blocked (showError FillRequiredFields t1)
         else AwaitingApi ((setLoadingState True t1)\<lparr>api_calls := Suc (api_calls t1)\<rparr>))"

definition handleSubmit_resume :: "real \<Rightarrow> FormController \<Rightarrow> FormController" where
  "handleSubmit_resume random this =
     (let t1 = (if random > 0.1
                then form_reset (showSuccess ThankYou this)
                else showError SubmitFailed this)
      in setLoadingState False t1)"

definition contact_form :: "string \<Rightarrow> FormController" where
  "contact_form email =
     \<lparr>form_fields =
        [text_input ''name'' ''Ann'', text_input ''email'' email, text_input ''company'' ''ACME'',
         \<lparr>field_tag = Select, field_name = Some ''team-size'', field_required = True,
          field_value = js_str ''1-10'', default_value = [], field_classes = []\<rparr>,
         \<lparr>field_tag = Textarea, field_name = Some ''message'', field_required = False,
          field_value = [], default_value = [], field_classes = []\<rparr>],
      submit_disabled = False, loading_display = ''none'', label_display = ''inline'',
      banners = [], api_calls = 0\<rparr>"

text \<open>A form whose second required field is a \<open>textarea\<close> with the name \<open>company\<close>.\<close>

definition textarea_form :: FormController where
  "textarea_form =
     \<lparr>form_fields =
        [text_input ''name'' ''Ann'',
         \<lparr>field_tag = Textarea, field_name = Some ''company'', field_required = True,
          field_value = [], default_value = [], field_classes = []\<rparr>],
      submit_disabled = False, loading_display = ''none'', label_display = ''inline'',
      banners = [], api_calls = 0\<rparr>"

section \<open>AnimationObserver: the visibility watcher\<close>

text \<open>
  Page elements are named by numbers.  The observer holds the set \<open>animatedElements\<close>;
  the class lists of the elements are part of the page, and \<open>handleIntersection\<close> writes
  to them.  \<open>reactions\<close> is the record of what the body of the \<open>if\<close> in
  \<open>handleIntersection\<close> has done, in order: the class added, the element inserted into
  the set, and \<open>animateCounter\<close> called.  The counter animation itself is the subject of
  the next section.
\<close>

record intersection_entry =
  entry_target :: nat
  isIntersecting :: bool

datatype reaction = ClassAdded nat | SetInserted nat | CounterStarted nat

record AnimationObserver =
  animatedElements :: "nat set"
  element_classes :: "nat \<Rightarrow> classList"
  reactions :: "reaction list"

definition new_AnimationObserver :: "(nat \<Rightarrow> classList) \<Rightarrow> AnimationObserver" where
  "new_AnimationObserver page =
     \<lparr>animatedElements = {}, element_classes = page, reactions = []\<rparr>"

definition handle_entry :: "AnimationObserver \<Rightarrow> intersection_entry \<Rightarrow> AnimationObserver" where
  "handle_entry this entry =
     (if isIntersecting entry \<and> entry_target entry \<notin> animatedElements this
      then
        let e = entry_target entry;
            cl = classList_add ''aos-animate'' (element_classes this e);
            t1 = this\<lparr>element_classes := (element_classes this)(e := cl),
                      animatedElements := insert e (animatedElements this),
                      reactions := reactions this @ [ClassAdded e, SetInserted e]\<rparr>
        in if classList_contains ''analytics-number'' cl \<or> classList_contains ''stat-number'' cl
           then t1\<lparr>reactions := reactions t1 @ [CounterStarted e]\<rparr>
           else t1
      else this)"

definition handleIntersection :: "intersection_entry list \<Rightarrow> AnimationObserver \<Rightarrow> AnimationObserver" where
  "handleIntersection entries this = foldl handle_entry this entries"

text \<open>The page lifetime: the observer's callback runs on one batch of entries after another.\<close>

definition observer_run :: "intersection_entry list list \<Rightarrow> AnimationObserver \<Rightarrow> AnimationObserver" where
  "observer_run batches this = foldl (\<lambda>s entries. handleIntersection entries s) this batches"

fun reaction_element :: "reaction \<Rightarrow> nat" where
  "reaction_element (ClassAdded e) = e"
| "reaction_element (SetInserted e) = e"
| "reaction_element (CounterStarted e) = e"

text \<open>A page with a plain animated element 1 and a counter element 2.\<close>

definition demo_page :: "nat \<Rightarrow> classList" where
  "demo_page = (\<lambda>e. [])(1 := [''card''], 2 := [''stat-number''])"

section \<open>AnimationObserver: the counter animation\<close>

text \<open>
  \<open>animateCounter\<close> computes with JavaScript numbers.  The model computes with reals and
  applies a rounding function \<open>rnd\<close> to the result of the division and of every addition,
  where a double-precision operation rounds; \<open>rnd = (\<lambda>x. x)\<close> is exact arithmetic.  The
  quotient \<open>duration / 16 = 125\<close> is exact in either.  \<open>parseInt\<close> yields an integer or
  \<open>NaN\<close> (here \<open>None\<close>), and \<open>|| 0\<close> turns \<open>NaN\<close> into 0.

  \<open>updateCounter\<close> is the closure that reschedules itself with \<open>requestAnimationFrame\<close>.
  It returns the frames it renders, in order: each frame is the running value \<open>current\<close>
  after the addition and the number written to \<open>textContent\<close>.  A run that never
  reaches the \<open>else\<close> branch has the value \<open>None\<close>.
\<close>

type_synonym frame = "real \<times> int"

partial_function (option) updateCounter ::
    "(real \<Rightarrow> real) \<Rightarrow> real \<Rightarrow> int \<Rightarrow> real \<Rightarrow> frame list option" where
  "updateCounter rnd increment target current =
     (if rnd (current + increment) < of_int target
      then Option.bind (updateCounter rnd increment target (rnd (current + increment)))
             (\<lambda>frames. Some ((rnd (current + increment), \<lfloor>rnd (current + increment)\<rfloor>) # frames))
      else Some [(rnd (current + increment), target)])"

definition animateCounter :: "(real \<Rightarrow> real) \<Rightarrow> int option \<Rightarrow> frame list option" where
  "animateCounter rnd data_target =
     (let target = (case data_target of None \<Rightarrow> 0 | Some n \<Rightarrow> n);
          duration = 2000;
          increment = rnd (of_int target / (duration / 16));
          current = 0
      in updateCounter rnd increment target current)"

text \<open>
  What the proofs ask of the rounding: it keeps 0, and on the interval from \<open>lo\<close> to
  \<open>hi\<close> its relative error is at most \<open>2\<^sup>-\<^sup>1\<^sup>0\<close>.  Rounding to the nearest double keeps
  0 and has relative error at most \<open>2\<^sup>-\<^sup>5\<^sup>3\<close> on every interval of positive numbers that
  neither underflow nor overflow.
\<close>

definition rounds_within :: "(real \<Rightarrow> real) \<Rightarrow> real \<Rightarrow> real \<Rightarrow> bool" where
  "rounds_within rnd lo hi =
     (rnd 0 = 0 \<and> (\<forall>x. lo \<le> x \<and> x \<le> hi \<longrightarrow> \<bar>rnd x - x\<bar> \<le> x / 1024))"

section \<open>TelegramAnimator: the chat timeline\<close>

subsection \<open>State, timers and page events\<close>

text \<open>
  The animator waits on timers only: the \<open>setInterval\<close> of \<open>typeText\<close> (50), the
  \<open>setTimeout\<close> awaited after each message (1500) and the \<open>setTimeout\<close> that restarts
  the script (5000).  A pending timer is a due time and a \<open>task\<close>, the code that runs
  when it fires together with the values its closure holds:
  \<^item> \<open>TypeTick i el text charIndex currentText\<close> is the interval callback of \<open>typeText\<close>
    for element \<open>el\<close>, awaited by iteration \<open>i\<close> of the loop in \<open>startAnimation\<close>;
  \<^item> \<open>MessageGap i\<close> resumes iteration \<open>i\<close> of that loop after its 1500 delay;
  \<^item> \<open>Restart\<close> is the callback that resets \<open>isAnimating\<close> and calls \<open>startAnimation\<close>.
  The code after an \<open>await\<close> runs in the same turn of the event loop as the timer that
  resolves the promise, so it is part of that timer's task.  Time is the virtual time
  of the timers: a timer fires exactly when it is due, the earliest first, and among
  equal due times the one created first.

  Message elements are numbered in the order of their creation; \<open>elements\<close> holds them
  all, \<open>container\<close> the numbers of those that are children of the message container.
  Every function returns, next to the new state, the page mutations it made with their
  times.  (The write to \<open>scrollTop\<close> depends on layout and is left out.)
\<close>

record chat_message =
  msg_type :: string
  msg_text :: jsstring

record message_element =
  className :: string
  opacity :: string
  textContent :: jsstring

datatype task =
    TypeTick nat nat jsstring nat jsstring
  | MessageGap nat
  | Restart

datatype page_mutation =
    ContainerCleared
  | MessageCreated nat string
  | TextTyped nat jsstring

type_synonym timed = "nat \<times> page_mutation"

record TelegramAnimator =
  messages :: "chat_message list"
  currentMessageIndex :: nat
  isAnimating :: bool
  elements :: "message_element list"
  container :: "nat list"
  timers :: "(nat \<times> task) list"
  now :: nat

definition new_TelegramAnimator :: "chat_message list \<Rightarrow> TelegramAnimator" where
  "new_TelegramAnimator script =
     \<lparr>messages = script, currentMessageIndex = 0, isAnimating = False,
      elements = [], container = [], timers = [], now = 0\<rparr>"

definition setTimer :: "nat \<Rightarrow> task \<Rightarrow> TelegramAnimator \<Rightarrow> TelegramAnimator" where
  "setTimer delay k this = this\<lparr>timers := timers this @ [(now this + delay, k)]\<rparr>"

definition addMessage :: "nat \<Rightarrow> chat_message \<Rightarrow> TelegramAnimator \<Rightarrow> timed list \<times> TelegramAnimator" where
  "addMessage i messageData this =
     (let el = length (elements this);
          cls = ''message '' @ msg_type messageData @ ''-message'';
          messageElement = \<lparr>className = cls, opacity = ''0'', textContent = []\<rparr>;
          t1 = this\<lparr>elements := elements this @ [messageElement\<lparr>opacity := ''1''\<rparr>],
                    container := container this @ [el]\<rparr>
      in ([(now this, MessageCreated el cls)],
          setTimer 50 (TypeTick i el (msg_text messageData) 0 []) t1))"

definition loop_from :: "nat \<Rightarrow> TelegramAnimator \<Rightarrow> timed list \<times> TelegramAnimator" where
  "loop_from i this =
     (if i < length (messages this)
      then addMessage i (messages this ! i) this
      else ([], setTimer 5000 Restart this))"

definition startAnimation :: "TelegramAnimator \<Rightarrow> timed list \<times> TelegramAnimator" where
  "startAnimation this =
     (let t1 = this\<lparr>isAnimating := True, container := [], currentMessageIndex := 0\<rparr>;
          (evs, t2) = loop_from 0 t1
      in ((now this, ContainerCleared) # evs, t2))"

fun run_task :: "task \<Rightarrow> TelegramAnimator \<Rightarrow> timed list \<times> TelegramAnimator" where
  "run_task (TypeTick i el text charIndex currentText) this =
     (if charIndex < length text
      then
        let currentText' = currentText @ [text ! charIndex];
            t1 = this\<lparr>elements := (elements this)
                        [el := (elements this ! el)\<lparr>textContent := currentText'\<rparr>]\<rparr>
        in ([(now this, TextTyped el currentText')],
            setTimer 50 (TypeTick i el text (charIndex + 1) currentText') t1)
      else ([], setTimer 1500 (MessageGap i) this))"
| "run_task (MessageGap i) this = loop_from (i + 1) this"
| "run_task Restart this = startAnimation (this\<lparr>isAnimating := False\<rparr>)"

fun earliest :: "nat \<times> task \<Rightarrow> (nat \<times> task) list \<Rightarrow> nat \<times> task" where
  "earliest t [] = t"
| "earliest t (u # us) = (if fst u < fst t then earliest u us else earliest t us)"

definition fire :: "TelegramAnimator \<Rightarrow> (timed list \<times> TelegramAnimator) option" where
  "fire this =
     (case timers this of
        [] \<Rightarrow> None
      | t # ts \<Rightarrow>
          let (due, k) = earliest t ts
          in Some (run_task k (this\<lparr>now := due, timers := remove1 (due, k) (timers this)\<rparr>)))"

text \<open>
  The observer callback of \<open>init\<close>, for the entries of the chat demo element; an entry is
  its \<open>isIntersecting\<close> flag.
\<close>

definition observe_entry :: "timed list \<times> TelegramAnimator \<Rightarrow> bool \<Rightarrow> timed list \<times> TelegramAnimator" where
  "observe_entry acc entry =
     (let (evs, this) = acc
      in if entry \<and> \<not> isAnimating this
         then (let (evs', t1) = startAnimation this in (evs @ evs', t1))
         else (evs, this))"

definition observer_callback :: "bool list \<Rightarrow> TelegramAnimator \<Rightarrow> timed list \<times> TelegramAnimator" where
  "observer_callback entries this = foldl observe_entry ([], this) entries"

text \<open>
  What can happen to the animator during the life of the page: a visibility
  notification, or the next timer firing.  \<open>ticks n\<close> lets \<open>n\<close> timers fire in a row and
  is \<open>None\<close> when there is no timer left to fire.
\<close>

datatype page_event = Visibility "bool list" | TimerFires

fun page_step :: "TelegramAnimator \<Rightarrow> page_event \<Rightarrow> TelegramAnimator" where
  "page_step this (Visibility entries) = snd (observer_callback entries this)"
| "page_step this TimerFires = (case fire this of None \<Rightarrow> this | Some r \<Rightarrow> snd r)"

definition page_run :: "page_event list \<Rightarrow> TelegramAnimator \<Rightarrow> TelegramAnimator" where
  "page_run evs this = foldl page_step this evs"



subsection \<open>The timeline in the words of the specification\<close>







text \<open>A short script for concrete runs.\<close>

definition demo_script :: "chat_message list" where
  "demo_script =
     [\<lparr>msg_type = ''bot'', msg_text = js_str ''Hi''\<rparr>,
      \<lparr>msg_type = ''user'', msg_text = js_str ''/s''\<rparr>]"

section \<open>The scroll-progress bar\<close>












section \<open>Notions used in the proofs\<close>

text \<open>
  The invariant of the watcher: no reaction is recorded twice, and every recorded
  reaction belongs to an element of the animated set.
\<close>

definition entered_once :: "AnimationObserver \<Rightarrow> bool" where
  "entered_once s =
     (distinct (reactions s) \<and> (\<forall>r\<in>set (reactions s). reaction_element r \<in> animatedElements s))"

text \<open>What the claim says of the frames rendered from the running value \<open>c\<close> on.\<close>

definition ramp_from :: "int \<Rightarrow> real \<Rightarrow> frame list \<Rightarrow> bool" where
  "ramp_from T c fs =
     (fs \<noteq> [] \<and> snd (last fs) = T \<and> \<not> fst (last fs) < of_int T
      \<and> (\<forall>f\<in>set (butlast fs). fst f < of_int T \<and> snd f = \<lfloor>fst f\<rfloor>)
      \<and> sorted (map snd fs)
      \<and> (\<forall>f\<in>set fs. \<lfloor>c\<rfloor> \<le> snd f \<and> snd f \<le> T))"

text \<open>
  The running values of the frames are the successive sums: the first is the rounded
  sum of \<open>c\<close> and the increment, each later one the rounded sum of the one before and
  the increment.
\<close>

definition running_from :: "(real \<Rightarrow> real) \<Rightarrow> real \<Rightarrow> real \<Rightarrow> frame list \<Rightarrow> bool" where
  "running_from rnd inc c fs =
     (fs \<noteq> [] \<and> fst (hd fs) = rnd (c + inc)
      \<and> (\<forall>k. Suc k < length fs \<longrightarrow> fst (fs ! Suc k) = rnd (fst (fs ! k) + inc)))"

text \<open>
  The invariant of the animator: at most one timer is pending, and one is pending
  exactly when \<open>isAnimating\<close> is true.
\<close>

definition one_playback :: "TelegramAnimator \<Rightarrow> bool" where
  "one_playback s = (length (timers s) \<le> 1 \<and> isAnimating s = (timers s \<noteq> []))"



section \<open>Properties of the class list\<close>

lemma contains_add [simp]:
  "classList_contains c (classList_add d cl) = (c = d \<or> classList_contains c cl)"
  by (auto simp: classList_contains_def classList_add_def)

lemma contains_remove [simp]:
  "classList_contains c (classList_remove d cl) = (c \<noteq> d \<and> classList_contains c cl)"
  by (auto simp: classList_contains_def classList_remove_def)

section \<open>TabController: which buttons and panels are active\<close>

lemma button_active_switch:
  "button_active (switch_button i b) = (buttonTabId b = i)"
  by (simp add: button_active_def switch_button_def buttonTabId_def Let_def)

lemma content_active_switch:
  "content_active (switch_content i p) =
     (content_id p = Some (''tab-'' @ template_str i) \<or> content_id p = Some (''example-'' @ template_str i))"
  by (simp add: content_active_def switch_content_def Let_def)

lemma filter_key_distinct:
  "distinct (map f xs) \<Longrightarrow> length (filter (\<lambda>x. f x = v) xs) \<le> 1"
proof (induction xs)
  case Nil
  then show ?case by simp
next
  case (Cons x xs)
  show ?case
  proof (cases "f x = v")
    case True
    with Cons.prems have "v \<notin> f ` set xs" by simp
    then have "\<forall>y\<in>set xs. f y \<noteq> v" by blast
    then have "filter (\<lambda>x. f x = v) xs = []" by (simp add: filter_empty_conv)
    with True show ?thesis by simp
  next
    case False
    with Cons show ?thesis by simp
  qed
qed

lemma filter_two_keys_distinct:
  assumes "distinct (map f xs)" and "A \<notin> f ` set xs \<or> B \<notin> f ` set xs"
  shows "length (filter (\<lambda>x. f x = A \<or> f x = B) xs) \<le> 1"
proof -
  from assms(2) consider "A \<notin> f ` set xs" | "B \<notin> f ` set xs" by blast
  then show ?thesis
  proof cases
    case 1
    then have "filter (\<lambda>x. f x = A \<or> f x = B) xs = filter (\<lambda>x. f x = B) xs"
      by (intro filter_cong) auto
    with filter_key_distinct [OF assms(1)] show ?thesis by simp
  next
    case 2
    then have "filter (\<lambda>x. f x = A \<or> f x = B) xs = filter (\<lambda>x. f x = A) xs"
      by (intro filter_cong) auto
    with filter_key_distinct [OF assms(1)] show ?thesis by simp
  qed
qed

text \<open>
  Claim C9, as amended.  After \<open>switchTab id\<close> a button carries \<open>active\<close> exactly when
  its effective tab id (\<open>data-tab\<close>, or \<open>data-example\<close> when \<open>data-tab\<close> is missing or
  empty) equals \<open>id\<close>, and a panel carries \<open>active\<close> exactly when its element id is
  \<open>tab-id\<close> or \<open>example-id\<close>; every other button and panel has lost \<open>active\<close>, also
  when nothing matches.  At most one button is active when the effective tab ids of the
  buttons are pairwise distinct, and at most one panel when the panel ids are pairwise
  distinct and the container does not hold both the \<open>tab-id\<close> and the \<open>example-id\<close>
  panel.
\<close>

theorem switchTab_active:
  "map button_active (tabButtons (switchTab activeTabId this))
      = map (\<lambda>b. buttonTabId b = activeTabId) (tabButtons this)
    \<and> map content_active (tabContents (switchTab activeTabId this))
      = map (\<lambda>p. content_id p = Some (''tab-'' @ template_str activeTabId)
                \<or> content_id p = Some (''example-'' @ template_str activeTabId)) (tabContents this)
    \<and> (distinct (map buttonTabId (tabButtons this))
         \<longrightarrow> length (filter button_active (tabButtons (switchTab activeTabId this))) \<le> 1)
    \<and> (distinct (map content_id (tabContents this))
           \<and> (Some (''tab-'' @ template_str activeTabId) \<notin> content_id ` set (tabContents this)
              \<or> Some (''example-'' @ template_str activeTabId) \<notin> content_id ` set (tabContents this))
         \<longrightarrow> length (filter content_active (tabContents (switchTab activeTabId this))) \<le> 1)"
proof -
  have b: "filter button_active (map (switch_button activeTabId) bs)
        = map (switch_button activeTabId) (filter (\<lambda>b. buttonTabId b = activeTabId) bs)" for bs
    by (simp add: filter_map comp_def button_active_switch)
  have c: "filter content_active (map (switch_content activeTabId) ps)
        = map (switch_content activeTabId)
            (filter (\<lambda>p. content_id p = Some (''tab-'' @ template_str activeTabId)
                        \<or> content_id p = Some (''example-'' @ template_str activeTabId)) ps)" for ps
    by (simp add: filter_map comp_def content_active_switch)
  have "map button_active (tabButtons (switchTab activeTabId this))
      = map (\<lambda>b. buttonTabId b = activeTabId) (tabButtons this)"
    by (simp add: switchTab_def button_active_switch)
  moreover have "map content_active (tabContents (switchTab activeTabId this))
      = map (\<lambda>p. content_id p = Some (''tab-'' @ template_str activeTabId)
                \<or> content_id p = Some (''example-'' @ template_str activeTabId)) (tabContents this)"
    by (simp add: switchTab_def content_active_switch)
  moreover have "length (filter button_active (tabButtons (switchTab activeTabId this))) \<le> 1"
    if "distinct (map buttonTabId (tabButtons this))"
    using filter_key_distinct [OF that, of activeTabId] by (simp add: switchTab_def b)
  moreover have "length (filter content_active (tabContents (switchTab activeTabId this))) \<le> 1"
    if "distinct (map content_id (tabContents this))"
      and "Some (''tab-'' @ template_str activeTabId) \<notin> content_id ` set (tabContents this)
         \<or> Some (''example-'' @ template_str activeTabId) \<notin> content_id ` set (tabContents this)"
    using filter_two_keys_distinct [OF that] by (simp add: switchTab_def c)
  ultimately show ?thesis by blast
qed

theorem switchTab_active_witness:
  "distinct (map buttonTabId (tabButtons tabs_demo))
   \<and> distinct (map content_id (tabContents tabs_demo))
   \<and> Some (''example-'' @ template_str (Some ''reports'')) \<notin> content_id ` set (tabContents tabs_demo)
   \<and> map button_active (tabButtons (switchTab (Some ''reports'') tabs_demo)) = [False, True]
   \<and> map content_active (tabContents (switchTab (Some ''reports'') tabs_demo)) = [False, True]
   \<and> length (filter button_active (tabButtons (switchTab (Some ''reports'') tabs_demo))) \<le> 1
   \<and> length (filter content_active (tabContents (switchTab (Some ''reports'') tabs_demo))) \<le> 1"
proof -
  have h1: "distinct (map buttonTabId (tabButtons tabs_demo))"
    by (simp add: tabs_demo_def buttonTabId_def js_or_def)
  have h2: "distinct (map content_id (tabContents tabs_demo))"
    by (simp add: tabs_demo_def)
  have h3: "Some (''example-'' @ template_str (Some ''reports'')) \<notin> content_id ` set (tabContents tabs_demo)"
    by (simp add: tabs_demo_def template_str_def)
  have v1: "map (\<lambda>b. buttonTabId b = Some ''reports'') (tabButtons tabs_demo) = [False, True]"
    by (simp add: tabs_demo_def buttonTabId_def js_or_def)
  have v2: "map (\<lambda>p. content_id p = Some (''tab-'' @ template_str (Some ''reports''))
                \<or> content_id p = Some (''example-'' @ template_str (Some ''reports'')))
              (tabContents tabs_demo) = [False, True]"
    by (simp add: tabs_demo_def template_str_def)
  from switchTab_active [of "Some ''reports''" tabs_demo] h1 h2 h3 v1 v2
  show ?thesis by presburger
qed

text \<open>
  Claim C9 as stated fails on \<open>tabs_shared\<close>: after \<open>switchTab b\<close> two buttons and two
  panels are active, and the first button is not, although its \<open>data-example\<close> is \<open>b\<close>.
\<close>

theorem switchTab_counterexample:
  "map button_active (tabButtons (switchTab (Some ''b'') tabs_shared)) = [False, True, True]
   \<and> map data_example (tabButtons tabs_shared) = [Some ''b'', None, None]
   \<and> map content_active (tabContents (switchTab (Some ''b'') tabs_shared)) = [True, True]"
  by (simp add: tabs_shared_def switchTab_def switch_button_def switch_content_def Let_def
      buttonTabId_def js_or_def template_str_def button_active_def content_active_def
      classList_contains_def classList_add_def classList_remove_def)

section \<open>NavigationController: the link of the last section under the scroll position\<close>

lemma highlight_link_href [simp]: "href (highlight_link a l) = href l"
  by (simp add: highlight_link_def Let_def)

lemma highlight_link_active [simp]:
  "link_active (highlight_link a l) = (href l = Some (''#'' @ a))"
  by (simp add: highlight_link_def Let_def link_active_def)

lemma marked_href:
  "map href (foldl (\<lambda>links section. if in_window p section
        then map (highlight_link (section_id section)) links else links) navLinks sections)
   = map href navLinks"
  by (induction sections arbitrary: navLinks) simp_all

lemma marked_active:
  "filter (in_window p) sections \<noteq> [] \<Longrightarrow>
   map link_active (foldl (\<lambda>links section. if in_window p section
        then map (highlight_link (section_id section)) links else links) navLinks sections)
   = map (\<lambda>l. href l = Some (''#'' @ section_id (last (filter (in_window p) sections)))) navLinks"
proof (induction sections rule: rev_induct)
  case Nil
  then show ?case by simp
next
  case (snoc x xs)
  show ?case
  proof (cases "in_window p x")
    case True
    let ?X = "Some (''#'' @ section_id x)"
    let ?prev = "foldl (\<lambda>links section. if in_window p section
        then map (highlight_link (section_id section)) links else links) navLinks xs"
    have "map link_active (map (highlight_link (section_id x)) ?prev)
        = map (\<lambda>h. h = ?X) (map href ?prev)"
      by simp
    also have "\<dots> = map (\<lambda>h. h = ?X) (map href navLinks)"
      by (simp only: marked_href)
    also have "\<dots> = map (\<lambda>l. href l = ?X) navLinks"
      by simp
    finally show ?thesis using True by simp
  next
    case False
    with snoc show ?thesis by simp
  qed
qed

lemma marked_none:
  "filter (in_window p) sections = [] \<Longrightarrow>
   foldl (\<lambda>links section. if in_window p section
        then map (highlight_link (section_id section)) links else links) navLinks sections = navLinks"
  by (induction sections arbitrary: navLinks) (simp_all split: if_splits)

text \<open>
  Claim C5, as amended.  Let the hits be the sections, in document order, whose window
  \<open>[sectionTop, sectionTop + sectionHeight)\<close> contains \<open>scrollY + 100\<close>.  On a
  recomputation with a hit, a link carries \<open>active\<close> afterwards exactly when its \<open>href\<close>
  is \<open>#\<close> followed by the id of the last hit.  On a recomputation without a hit the
  links are left as they were, so the link that was active stays active.  The links
  keep their \<open>href\<close>.  For the sections \<open>[0,300)\<close>, \<open>[300,800)\<close>, \<open>[800,1200)\<close> and
  \<open>scrollY = 450\<close> the link of the second section is the active one.
\<close>

theorem updateActiveLink_last_section:
  "(filter (in_window (scrollY + 100)) sections \<noteq> [] \<longrightarrow>
      map link_active (updateActiveLink scrollY sections navLinks)
        = map (\<lambda>l. href l = Some (''#'' @ section_id (last (filter (in_window (scrollY + 100)) sections))))
            navLinks)
   \<and> (filter (in_window (scrollY + 100)) sections = [] \<longrightarrow>
      updateActiveLink scrollY sections navLinks = navLinks)
   \<and> map href (updateActiveLink scrollY sections navLinks) = map href navLinks
   \<and> map link_active (updateActiveLink 450 demo_sections demo_links) = [False, True, False]"
proof -
  have "map link_active (updateActiveLink 450 demo_sections demo_links) = [False, True, False]"
    by (simp add: updateActiveLink_def demo_sections_def demo_links_def in_window_def)
  then show ?thesis
    by (simp add: updateActiveLink_def marked_active marked_none marked_href)
qed

theorem updateActiveLink_witness:
  "filter (in_window (450 + 100)) demo_sections = [demo_sections ! 1]
   \<and> map link_active (updateActiveLink 450 demo_sections demo_links)
        = map (\<lambda>l. href l = Some ''#features'') demo_links
   \<and> filter (in_window (1500 + 100)) demo_sections = []
   \<and> updateActiveLink 1500 demo_sections demo_links = demo_links"
proof -
  have h1: "filter (in_window (450 + 100)) demo_sections = [demo_sections ! 1]"
    by (simp add: demo_sections_def in_window_def)
  have h2: "filter (in_window (1500 + 100)) demo_sections = []"
    by (simp add: demo_sections_def in_window_def)
  have i: "section_id (demo_sections ! 1) = ''features''"
    by (simp add: demo_sections_def)
  from updateActiveLink_last_section [of 450 demo_sections demo_links]
       updateActiveLink_last_section [of 1500 demo_sections demo_links] h1 h2 i
  show ?thesis by simp
qed

text \<open>
  Claim C5 as stated fails on the example page at \<open>scrollY = 1500\<close>: no window contains
  1600, and the link of the first section, active before, is active after the
  recomputation.
\<close>

theorem updateActiveLink_counterexample:
  "filter (in_window (1500 + 100)) demo_sections = []
   \<and> map link_active demo_links = [True, False, False]
   \<and> map link_active (updateActiveLink 1500 demo_sections demo_links) = [True, False, False]"
  by (simp add: updateActiveLink_def demo_sections_def demo_links_def in_window_def
      link_active_def classList_contains_def)

section \<open>FormController: the rules of validateField\<close>

lemma matches_Once:
  "matches (Once a # r) s = (\<exists>c v. s = c # v \<and> atom_matches a c \<and> matches r v)"
  by (cases s) simp_all

lemma matches_OneOrMore:
  "matches (OneOrMore a # r) s
     = (\<exists>u v. s = u @ v \<and> u \<noteq> [] \<and> (\<forall>c\<in>set u. atom_matches a c) \<and> matches r v)"
proof (induction s)
  case Nil
  then show ?case by simp
next
  case (Cons c cs)
  show ?case
  proof
    assume "matches (OneOrMore a # r) (c # cs)"
    then have c: "atom_matches a c" and "matches (OneOrMore a # r) cs \<or> matches r cs"
      by simp_all
    then consider "matches (OneOrMore a # r) cs" | "matches r cs" by blast
    then show "\<exists>u v. c # cs = u @ v \<and> u \<noteq> [] \<and> (\<forall>c\<in>set u. atom_matches a c) \<and> matches r v"
    proof cases
      case 1
      with Cons.IH obtain u v where "cs = u @ v" "\<forall>c\<in>set u. atom_matches a c" "matches r v"
        by blast
      with c have "c # cs = (c # u) @ v \<and> c # u \<noteq> [] \<and> (\<forall>c\<in>set (c # u). atom_matches a c) \<and> matches r v"
        by simp
      then show ?thesis by blast
    next
      case 2
      with c have "c # cs = [c] @ cs \<and> [c] \<noteq> [] \<and> (\<forall>c\<in>set [c]. atom_matches a c) \<and> matches r cs"
        by simp
      then show ?thesis by blast
    qed
  next
    assume "\<exists>u v. c # cs = u @ v \<and> u \<noteq> [] \<and> (\<forall>c\<in>set u. atom_matches a c) \<and> matches r v"
    then obtain u v where uv: "c # cs = u @ v" "u \<noteq> []" "\<forall>c\<in>set u. atom_matches a c" "matches r v"
      by blast
    then obtain u' where u: "u = c # u'" "cs = u' @ v"
      by (cases u) auto
    show "matches (OneOrMore a # r) (c # cs)"
    proof (cases "u' = []")
      case True
      with u uv show ?thesis by simp
    next
      case False
      with u uv have "matches (OneOrMore a # r) cs"
        using Cons.IH by auto
      with u uv show ?thesis by simp
    qed
  qed
qed

lemma plain_run_atom:
  "(u \<noteq> [] \<and> (\<forall>c\<in>set u. atom_matches (NoneOf [is_white_space, \<lambda>c. c = at_sign]) c)) = plain_run u"
  by (auto simp: plain_run_def)

lemma emailRegex_shape: "regex_test emailRegex v = email_shape v"
proof -
  have "regex_test emailRegex v =
      (\<exists>u1 v1. v = u1 @ v1 \<and> plain_run u1 \<and>
        (\<exists>v2. v1 = at_sign # v2 \<and>
          (\<exists>u2 v3. v2 = u2 @ v3 \<and> plain_run u2 \<and>
            (\<exists>v4. v3 = full_stop # v4 \<and> plain_run v4))))"
    by (simp add: regex_test_def emailRegex_def matches_OneOrMore matches_Once
        plain_run_atom [symmetric] conj_assoc)
  also have "\<dots> = email_shape v"
  proof
    assume "email_shape v"
    then obtain l d t where "v = l @ (at_sign # d @ full_stop # t)"
        "plain_run l" "plain_run d" "plain_run t"
      by (auto simp: email_shape_def)
    then show "\<exists>u1 v1. v = u1 @ v1 \<and> plain_run u1 \<and>
        (\<exists>v2. v1 = at_sign # v2 \<and>
          (\<exists>u2 v3. v2 = u2 @ v3 \<and> plain_run u2 \<and>
            (\<exists>v4. v3 = full_stop # v4 \<and> plain_run v4)))"
      by blast
  qed (auto simp: email_shape_def)
  finally show ?thesis .
qed

lemmas email_eval = validateField_def Let_def text_input_def js_str_def trim_def is_white_space_def
  regex_test_def emailRegex_def at_sign_def full_stop_def

lemma validateField_valid:
  "snd (validateField f) =
     (if field_name f = Some ''name'' then 2 \<le> length (trim (field_value f))
      else if field_name f = Some ''email'' then email_shape (trim (field_value f))
      else if field_name f = Some ''company'' then 2 \<le> length (trim (field_value f))
      else if field_name f = Some ''team-size'' then trim (field_value f) \<noteq> []
      else True)"
  by (simp add: validateField_def Let_def emailRegex_shape)

lemma validateField_error_class:
  "classList_contains ''error'' (field_classes (fst (validateField f))) = (\<not> snd (validateField f))"
  by (simp add: validateField_def Let_def)

lemma validateField_keeps:
  "field_value (fst (validateField f)) = field_value f"
  "field_name (fst (validateField f)) = field_name f"
  by (simp_all add: validateField_def Let_def)

lemma text_input_simps [simp]:
  "field_name (text_input n v) = Some n" "field_value (text_input n v) = js_str v"
  "field_tag (text_input n v) = Input" "field_required (text_input n v) = True"
  by (simp_all add: text_input_def)



section \<open>FormController: submission\<close>

lemma valid_flag:
  "foldl (\<lambda>ok input. if \<not> P input then False else ok) b xs = (b \<and> list_all P xs)"
  by (induction xs arbitrary: b) auto

lemma handleSubmit_start_cases:
  "handleSubmit_start this =
     (let t1 = this\<lparr>form_fields := map (\<lambda>f. if is_required_input f then fst (validateField f) else f)
                                     (form_fields this)\<rparr>
      in if \<exists>f\<in>set (form_fields this). is_required_input f \<and> \<not> snd (validateField f)
         then Blocked (showError FillRequiredFields t1)
         else AwaitingApi ((setLoadingState True t1)\<lparr>api_calls := Suc (api_calls t1)\<rparr>))"
  by (auto simp: handleSubmit_start_def Let_def valid_flag list_all_iff)

lemma map_validate_values:
  "map field_value (map (\<lambda>f. if is_required_input f then fst (validateField f) else f) fs)
     = map field_value fs"
  by (induction fs) (simp_all add: validateField_keeps)

text \<open>
  Claim C10.  A field whose \<open>name\<close> is none of \<open>name\<close>, \<open>email\<close>, \<open>company\<close>, \<open>team-size\<close>
  (or that has no \<open>name\<close>) is always valid and never carries \<open>error\<close> after
  \<open>validateField\<close>, whatever its value; and a submission that is blocked has a required
  field with one of the four names that is invalid, so the other fields never block it.
\<close>

theorem validateField_other_names:
  "(field_name f \<notin> {Some ''name'', Some ''email'', Some ''company'', Some ''team-size''}
      \<longrightarrow> snd (validateField f)
          \<and> \<not> classList_contains ''error'' (field_classes (fst (validateField f))))
   \<and> (handleSubmit_start this = Blocked t
      \<longrightarrow> (\<exists>g\<in>set (form_fields this). is_required_input g \<and> \<not> snd (validateField g)
             \<and> field_name g \<in> {Some ''name'', Some ''email'', Some ''company'', Some ''team-size''}))"
proof -
  have a: "snd (validateField g)"
    if "field_name g \<notin> {Some ''name'', Some ''email'', Some ''company'', Some ''team-size''}" for g
    using that by (simp add: validateField_valid)
  have "\<exists>g\<in>set (form_fields this). is_required_input g \<and> \<not> snd (validateField g)"
    if "handleSubmit_start this = Blocked t"
    using that by (simp add: handleSubmit_start_cases Let_def split: if_splits)
  with a show ?thesis
    by (simp only: validateField_error_class) blast
qed

theorem validateField_other_names_witness:
  "field_name \<lparr>field_tag = Textarea, field_name = Some ''message'', field_required = True,
        field_value = [], default_value = [], field_classes = [''error'']\<rparr>
      \<notin> {Some ''name'', Some ''email'', Some ''company'', Some ''team-size''}
   \<and> validateField \<lparr>field_tag = Textarea, field_name = Some ''message'', field_required = True,
        field_value = [], default_value = [], field_classes = [''error'']\<rparr>
      = (\<lparr>field_tag = Textarea, field_name = Some ''message'', field_required = True,
        field_value = [], default_value = [], field_classes = []\<rparr>, True)
   \<and> handleSubmit_start (contact_form ''a@b'')
      = Blocked (showError FillRequiredFields ((contact_form ''a@b'')
          \<lparr>form_fields := map (\<lambda>f. if is_required_input f then fst (validateField f) else f)
                             (form_fields (contact_form ''a@b''))\<rparr>))
   \<and> (\<exists>g\<in>set (form_fields (contact_form ''a@b'')). is_required_input g
         \<and> \<not> snd (validateField g)
         \<and> field_name g \<in> {Some ''name'', Some ''email'', Some ''company'', Some ''team-size''})"
proof -
  let ?f = "\<lparr>field_tag = Textarea, field_name = Some ''message'', field_required = True,
        field_value = [], default_value = [], field_classes = [''error'']\<rparr>"
  let ?t = "showError FillRequiredFields ((contact_form ''a@b'')
          \<lparr>form_fields := map (\<lambda>f. if is_required_input f then fst (validateField f) else f)
                             (form_fields (contact_form ''a@b''))\<rparr>)"
  have n: "field_name ?f \<notin> {Some ''name'', Some ''email'', Some ''company'', Some ''team-size''}"
    by simp
  have v: "validateField ?f = (?f\<lparr>field_classes := []\<rparr>, True)"
    by (simp add: validateField_def Let_def classList_remove_def)
  have "\<not> snd (validateField (text_input ''email'' ''a@b''))"
    by (simp add: email_eval)
  then have "\<exists>f\<in>set (form_fields (contact_form ''a@b'')). is_required_input f \<and> \<not> snd (validateField f)"
    by (simp add: contact_form_def is_required_input_def)
  then have b: "handleSubmit_start (contact_form ''a@b'') = Blocked ?t"
    by (simp add: handleSubmit_start_cases Let_def)
  from validateField_other_names [of ?f "contact_form ''a@b''" ?t] n v b
  show ?thesis by simp
qed

lemma validateField_again:
  "snd (validateField (fst (validateField f))) = snd (validateField f)"
  "is_required_input (fst (validateField f)) = is_required_input f"
  by (simp_all add: validateField_def Let_def is_required_input_def)

lemma handleSubmit_again:
  assumes "\<forall>f\<in>set (form_fields this). is_required_input f \<longrightarrow> snd (validateField f)"
    and "handleSubmit_start this = AwaitingApi t"
  shows "\<exists>u. handleSubmit_start t = AwaitingApi u \<and> api_calls u = Suc (Suc (api_calls this))"
proof -
  let ?fs = "map (\<lambda>f. if is_required_input f then fst (validateField f) else f) (form_fields this)"
  from assms have t: "form_fields t = ?fs" "api_calls t = Suc (api_calls this)"
    by (auto simp: handleSubmit_start_cases Let_def setLoadingState_def split: if_splits)
  from assms(1) have "\<not> (\<exists>g\<in>set ?fs. is_required_input g \<and> \<not> snd (validateField g))"
    by (auto simp: validateField_again)
  with t show ?thesis
    by (simp add: handleSubmit_start_cases Let_def setLoadingState_def)
qed

text \<open>
  Claim C8, as amended.  \<open>handleSubmit\<close> checks the required \<open>input\<close> and \<open>select\<close>
  elements, not a required \<open>textarea\<close>.  When one of them fails validation it returns
  after showing the form-level error banner: the submit control, the loading indicator,
  the count of simulated calls and the field values are as before.  When all of them
  pass, the loading state is entered (submit control disabled, indicator shown) and one
  simulated call is started; whatever the call's outcome, the loading state is cleared
  afterwards and a success or an error banner is shown accordingly.  \<open>handleSubmit\<close>
  does not look at the loading state: the disabled submit control is the only thing
  that stands against a second submission, and a submit event that arrives during the
  loading state starts a second simulated call.
\<close>

theorem handleSubmit_gate:
  "((\<exists>f\<in>set (form_fields this). is_required_input f \<and> \<not> snd (validateField f)) \<longrightarrow>
      (\<exists>t. handleSubmit_start this = Blocked t
         \<and> banners t = banners (removeMessages this)
               @ [\<lparr>banner_class = ''error-message'', banner_text = FillRequiredFields\<rparr>]
         \<and> submit_disabled t = submit_disabled this
         \<and> loading_display t = loading_display this
         \<and> label_display t = label_display this
         \<and> api_calls t = api_calls this
         \<and> map field_value (form_fields t) = map field_value (form_fields this)))
   \<and> ((\<forall>f\<in>set (form_fields this). is_required_input f \<longrightarrow> snd (validateField f)) \<longrightarrow>
      (\<exists>t. handleSubmit_start this = AwaitingApi t
         \<and> submit_disabled t \<and> loading_display t = ''inline'' \<and> label_display t = ''none''
         \<and> api_calls t = Suc (api_calls this)
         \<and> banners t = banners this
         \<and> (\<exists>u. handleSubmit_start t = AwaitingApi u \<and> api_calls u = Suc (Suc (api_calls this)))
         \<and> (\<forall>random.
               \<not> submit_disabled (handleSubmit_resume random t)
               \<and> loading_display (handleSubmit_resume random t) = ''none''
               \<and> label_display (handleSubmit_resume random t) = ''inline''
               \<and> api_calls (handleSubmit_resume random t) = Suc (api_calls this)
               \<and> banners (handleSubmit_resume random t) = banners (removeMessages this)
                     @ [if random > 0.1
                        then \<lparr>banner_class = ''success-message'', banner_text = ThankYou\<rparr>
                        else \<lparr>banner_class = ''error-message'', banner_text = SubmitFailed\<rparr>])))"
proof (intro conjI impI)
  assume "\<exists>f\<in>set (form_fields this). is_required_input f \<and> \<not> snd (validateField f)"
  then show "\<exists>t. handleSubmit_start this = Blocked t
         \<and> banners t = banners (removeMessages this)
               @ [\<lparr>banner_class = ''error-message'', banner_text = FillRequiredFields\<rparr>]
         \<and> submit_disabled t = submit_disabled this
         \<and> loading_display t = loading_display this
         \<and> label_display t = label_display this
         \<and> api_calls t = api_calls this
         \<and> map field_value (form_fields t) = map field_value (form_fields this)"
    by (simp add: handleSubmit_start_cases Let_def showError_def removeMessages_def
        map_validate_values del: map_map)
next
  assume a: "\<forall>f\<in>set (form_fields this). is_required_input f \<longrightarrow> snd (validateField f)"
  then have "\<not> (\<exists>f\<in>set (form_fields this). is_required_input f \<and> \<not> snd (validateField f))"
    by blast
  then obtain t where t: "handleSubmit_start this = AwaitingApi t"
    by (simp add: handleSubmit_start_cases Let_def)
  from handleSubmit_again [OF a t]
  have "\<exists>u. handleSubmit_start t = AwaitingApi u \<and> api_calls u = Suc (Suc (api_calls this))" .
  with t show "\<exists>t. handleSubmit_start this = AwaitingApi t
         \<and> submit_disabled t \<and> loading_display t = ''inline'' \<and> label_display t = ''none''
         \<and> api_calls t = Suc (api_calls this)
         \<and> banners t = banners this
         \<and> (\<exists>u. handleSubmit_start t = AwaitingApi u \<and> api_calls u = Suc (Suc (api_calls this)))
         \<and> (\<forall>random.
               \<not> submit_disabled (handleSubmit_resume random t)
               \<and> loading_display (handleSubmit_resume random t) = ''none''
               \<and> label_display (handleSubmit_resume random t) = ''inline''
               \<and> api_calls (handleSubmit_resume random t) = Suc (api_calls this)
               \<and> banners (handleSubmit_resume random t) = banners (removeMessages this)
                     @ [if random > 0.1
                        then \<lparr>banner_class = ''success-message'', banner_text = ThankYou\<rparr>
                        else \<lparr>banner_class = ''error-message'', banner_text = SubmitFailed\<rparr>])"
    by (auto simp: handleSubmit_start_cases Let_def setLoadingState_def handleSubmit_resume_def
        showError_def showSuccess_def removeMessages_def form_reset_def split: if_splits)
qed

theorem handleSubmit_gate_witness:
  "(\<exists>f\<in>set (form_fields (contact_form ''a@b'')). is_required_input f \<and> \<not> snd (validateField f))
   \<and> (\<exists>t. handleSubmit_start (contact_form ''a@b'') = Blocked t
         \<and> banners t = [\<lparr>banner_class = ''error-message'', banner_text = FillRequiredFields\<rparr>]
         \<and> \<not> submit_disabled t \<and> loading_display t = ''none'' \<and> api_calls t = 0)
   \<and> map (\<lambda>f. snd (validateField f)) (filter is_required_input (form_fields (contact_form ''a@b.com'')))
       = [True, True, True, True]
   \<and> (\<exists>t. handleSubmit_start (contact_form ''a@b.com'') = AwaitingApi t
         \<and> submit_disabled t \<and> api_calls t = 1
         \<and> (\<exists>v. handleSubmit_start t = AwaitingApi v \<and> api_calls v = 2)
         \<and> \<not> submit_disabled (handleSubmit_resume 0.05 t)
         \<and> banners (handleSubmit_resume 0.05 t)
               = [\<lparr>banner_class = ''error-message'', banner_text = SubmitFailed\<rparr>]
         \<and> \<not> submit_disabled (handleSubmit_resume 0.5 t)
         \<and> banners (handleSubmit_resume 0.5 t)
               = [\<lparr>banner_class = ''success-message'', banner_text = ThankYou\<rparr>])"
proof -
  have "\<not> snd (validateField (text_input ''email'' ''a@b''))"
    by (simp add: email_eval)
  then have h1: "\<exists>f\<in>set (form_fields (contact_form ''a@b'')). is_required_input f \<and> \<not> snd (validateField f)"
    by (simp add: contact_form_def is_required_input_def)
  have "snd (validateField (text_input ''name'' ''Ann''))"
    "snd (validateField (text_input ''email'' ''a@b.com''))"
    "snd (validateField (text_input ''company'' ''ACME''))"
    "snd (validateField \<lparr>field_tag = Select, field_name = Some ''team-size'', field_required = True,
          field_value = js_str ''1-10'', default_value = [], field_classes = []\<rparr>)"
    by (simp_all add: email_eval)
  then have h3: "map (\<lambda>f. snd (validateField f))
        (filter is_required_input (form_fields (contact_form ''a@b.com''))) = [True, True, True, True]"
    by (simp add: contact_form_def is_required_input_def text_input_def)
  then have "list_all (\<lambda>b. b) (map (\<lambda>f. snd (validateField f))
        (filter is_required_input (form_fields (contact_form ''a@b.com''))))"
    by simp
  then have h2: "\<forall>f\<in>set (form_fields (contact_form ''a@b.com'')). is_required_input f \<longrightarrow> snd (validateField f)"
    by (simp add: list_all_iff)
  have s: "submit_disabled (contact_form e) = False" "loading_display (contact_form e) = ''none''"
    "api_calls (contact_form e) = 0" "banners (removeMessages (contact_form e)) = []" for e
    by (simp_all add: contact_form_def removeMessages_def)
  from handleSubmit_gate [of "contact_form ''a@b''"] h1
  obtain t where t: "handleSubmit_start (contact_form ''a@b'') = Blocked t
         \<and> banners t = [\<lparr>banner_class = ''error-message'', banner_text = FillRequiredFields\<rparr>]
         \<and> \<not> submit_disabled t \<and> loading_display t = ''none'' \<and> api_calls t = 0"
    by (auto simp: s)
  from handleSubmit_gate [of "contact_form ''a@b.com''"] h2
  obtain u where u: "handleSubmit_start (contact_form ''a@b.com'') = AwaitingApi u"
      "submit_disabled u" "api_calls u = 1"
      "\<exists>v. handleSubmit_start u = AwaitingApi v \<and> api_calls v = 2"
      "\<And>random. \<not> submit_disabled (handleSubmit_resume random u)
           \<and> banners (handleSubmit_resume random u) =
               [if random > 0.1
                then \<lparr>banner_class = ''success-message'', banner_text = ThankYou\<rparr>
                else \<lparr>banner_class = ''error-message'', banner_text = SubmitFailed\<rparr>]"
    by (auto simp: s)
  from u(5) [of "0.05"] u(5) [of "0.5"] u(1,2,3,4)
  have "handleSubmit_start (contact_form ''a@b.com'') = AwaitingApi u
         \<and> submit_disabled u \<and> api_calls u = 1
         \<and> (\<exists>v. handleSubmit_start u = AwaitingApi v \<and> api_calls v = 2)
         \<and> \<not> submit_disabled (handleSubmit_resume 0.05 u)
         \<and> banners (handleSubmit_resume 0.05 u)
               = [\<lparr>banner_class = ''error-message'', banner_text = SubmitFailed\<rparr>]
         \<and> \<not> submit_disabled (handleSubmit_resume 0.5 u)
         \<and> banners (handleSubmit_resume 0.5 u)
               = [\<lparr>banner_class = ''success-message'', banner_text = ThankYou\<rparr>]"
    by simp
  with t h1 h3 show ?thesis by blast
qed

text \<open>
  Claim C8 as stated fails on \<open>textarea_form\<close>: its required \<open>textarea\<close> fails
  validation, and the submission is not blocked but enters the loading state and starts
  the simulated call; and a second \<open>handleSubmit\<close> in that loading state starts a second
  call.
\<close>

theorem handleSubmit_counterexample:
  "map (\<lambda>f. (field_required f, snd (validateField f))) (form_fields textarea_form)
     = [(True, True), (True, False)]
   \<and> (\<exists>t. handleSubmit_start textarea_form = AwaitingApi t
         \<and> submit_disabled t \<and> api_calls t = 1
         \<and> (\<exists>u. handleSubmit_start t = AwaitingApi u \<and> api_calls u = 2))"
  by (simp add: textarea_form_def handleSubmit_start_def Let_def setLoadingState_def
      is_required_input_def email_eval)

section \<open>AnimationObserver: every element enters at most once\<close>

lemma entered_once_new: "entered_once (new_AnimationObserver page)"
  by (simp add: entered_once_def new_AnimationObserver_def)

lemma entered_once_entry: "entered_once s \<Longrightarrow> entered_once (handle_entry s entry)"
  by (auto simp: entered_once_def handle_entry_def Let_def)

lemma entered_once_batch: "entered_once s \<Longrightarrow> entered_once (handleIntersection entries s)"
  unfolding handleIntersection_def
  by (induction entries arbitrary: s) (simp_all add: entered_once_entry)

lemma entered_once_run: "entered_once s \<Longrightarrow> entered_once (observer_run batches s)"
  unfolding observer_run_def
  by (induction batches arbitrary: s) (simp_all add: entered_once_batch)

lemma distinct_count_list: "distinct xs \<Longrightarrow> count_list xs x \<le> 1"
  by (induction xs) auto

lemma handle_entry_animated:
  "entry_target entry \<in> animatedElements s \<Longrightarrow> handle_entry s entry = s"
  by (simp add: handle_entry_def)

text \<open>
  Claim C1.  Over any sequence of callback batches, starting from a fresh observer, each
  of the three reactions (class added, element inserted into the animated set, counter
  animation started) has happened at most once for every element; the elements that
  reacted are exactly the animated set; and an entry for an element of that set changes
  nothing, whatever its visibility.
\<close>

theorem entered_at_most_once:
  "count_list (reactions (observer_run batches (new_AnimationObserver page))) (ClassAdded e) \<le> 1
   \<and> count_list (reactions (observer_run batches (new_AnimationObserver page))) (SetInserted e) \<le> 1
   \<and> count_list (reactions (observer_run batches (new_AnimationObserver page))) (CounterStarted e) \<le> 1
   \<and> (entry_target entry \<in> animatedElements (observer_run batches (new_AnimationObserver page))
        \<longrightarrow> handle_entry (observer_run batches (new_AnimationObserver page)) entry
            = observer_run batches (new_AnimationObserver page))"
proof -
  let ?s = "observer_run batches (new_AnimationObserver page)"
  have "entered_once ?s"
    by (simp add: entered_once_run entered_once_new)
  then have "distinct (reactions ?s)"
    by (simp add: entered_once_def)
  then have "count_list (reactions ?s) r \<le> 1" for r
    by (rule distinct_count_list)
  then show ?thesis
    by (simp add: handle_entry_animated)
qed

theorem entered_at_most_once_witness:
  "reactions (observer_run
       [[\<lparr>entry_target = 1, isIntersecting = True\<rparr>, \<lparr>entry_target = 2, isIntersecting = False\<rparr>],
        [\<lparr>entry_target = 1, isIntersecting = False\<rparr>, \<lparr>entry_target = 2, isIntersecting = True\<rparr>],
        [\<lparr>entry_target = 1, isIntersecting = True\<rparr>, \<lparr>entry_target = 2, isIntersecting = True\<rparr>,
         \<lparr>entry_target = 2, isIntersecting = True\<rparr>]]
       (new_AnimationObserver demo_page))
     = [ClassAdded 1, SetInserted 1, ClassAdded 2, SetInserted 2, CounterStarted 2]
   \<and> 1 \<in> animatedElements (observer_run
       [[\<lparr>entry_target = 1, isIntersecting = True\<rparr>, \<lparr>entry_target = 2, isIntersecting = False\<rparr>],
        [\<lparr>entry_target = 1, isIntersecting = False\<rparr>, \<lparr>entry_target = 2, isIntersecting = True\<rparr>],
        [\<lparr>entry_target = 1, isIntersecting = True\<rparr>, \<lparr>entry_target = 2, isIntersecting = True\<rparr>,
         \<lparr>entry_target = 2, isIntersecting = True\<rparr>]]
       (new_AnimationObserver demo_page))
   \<and> reactions (handle_entry (observer_run
       [[\<lparr>entry_target = 1, isIntersecting = True\<rparr>, \<lparr>entry_target = 2, isIntersecting = False\<rparr>],
        [\<lparr>entry_target = 1, isIntersecting = False\<rparr>, \<lparr>entry_target = 2, isIntersecting = True\<rparr>],
        [\<lparr>entry_target = 1, isIntersecting = True\<rparr>, \<lparr>entry_target = 2, isIntersecting = True\<rparr>,
         \<lparr>entry_target = 2, isIntersecting = True\<rparr>]]
       (new_AnimationObserver demo_page)) \<lparr>entry_target = 1, isIntersecting = True\<rparr>)
     = [ClassAdded 1, SetInserted 1, ClassAdded 2, SetInserted 2, CounterStarted 2]"
proof -
  let ?b = "[[\<lparr>entry_target = 1, isIntersecting = True\<rparr>, \<lparr>entry_target = 2, isIntersecting = False\<rparr>],
        [\<lparr>entry_target = 1, isIntersecting = False\<rparr>, \<lparr>entry_target = 2, isIntersecting = True\<rparr>],
        [\<lparr>entry_target = 1, isIntersecting = True\<rparr>, \<lparr>entry_target = 2, isIntersecting = True\<rparr>,
         \<lparr>entry_target = 2, isIntersecting = True\<rparr>]]"
  have r: "reactions (observer_run ?b (new_AnimationObserver demo_page))
      = [ClassAdded 1, SetInserted 1, ClassAdded 2, SetInserted 2, CounterStarted 2]"
    by (simp add: observer_run_def handleIntersection_def handle_entry_def Let_def
        new_AnimationObserver_def demo_page_def classList_add_def classList_contains_def)
  have a: "1 \<in> animatedElements (observer_run ?b (new_AnimationObserver demo_page))"
    by (simp add: observer_run_def handleIntersection_def handle_entry_def Let_def
        new_AnimationObserver_def demo_page_def classList_add_def classList_contains_def)
  from entered_at_most_once [of ?b demo_page 1 "\<lparr>entry_target = 1, isIntersecting = True\<rparr>"] r a
  show ?thesis by simp
qed

section \<open>The scroll-progress bar: between 0 and 100, without a lower clamp\<close>











section \<open>The counter animation: a monotone ramp that ends on the target\<close>

lemma rounds_within_bounds:
  assumes "rounds_within rnd lo hi" and "lo \<le> x" and "x \<le> hi"
  shows "x - x / 1024 \<le> rnd x" and "rnd x \<le> x + x / 1024"
proof -
  from assms have "\<bar>rnd x - x\<bar> \<le> x / 1024"
    by (simp add: rounds_within_def)
  then show "x - x / 1024 \<le> rnd x" and "rnd x \<le> x + x / 1024"
    by linarith+
qed

lemma increment_bounds:
  assumes "rounds_within rnd (t / 128) (2 * t)" and "0 < t"
  shows "t * (1023 / 128000) \<le> rnd (t / (2000 / 16))"
    and "rnd (t / (2000 / 16)) \<le> t * (1025 / 128000)"
proof -
  from assms(2) have "t / 128 \<le> t / (2000 / 16)" "t / (2000 / 16) \<le> 2 * t"
    by simp_all
  from rounds_within_bounds [OF assms(1) this]
  show "t * (1023 / 128000) \<le> rnd (t / (2000 / 16))"
    and "rnd (t / (2000 / 16)) \<le> t * (1025 / 128000)"
    by (simp_all add: field_simps)
qed

lemma step_progress:
  assumes r: "rounds_within rnd (t / 128) (2 * t)" and t: "0 < t" and c: "0 \<le> c" "c < t"
    and i: "t * (1023 / 128000) \<le> inc" "inc \<le> t * (1025 / 128000)"
  shows "c + t / 150 \<le> rnd (c + inc)"
proof -
  from t i(1) c(1) have lo: "t / 128 \<le> c + inc" by linarith
  from t i(2) c(2) have hi: "c + inc \<le> 2 * t" by linarith
  from rounds_within_bounds(1) [OF r lo hi] have 1: "(c + inc) - (c + inc) / 1024 \<le> rnd (c + inc)" .
  have 2: "(c + inc) - (c + inc) / 1024 = c * (1023 / 1024) + inc * (1023 / 1024)"
    by (simp add: field_simps)
  from i(1) have 3: "t * (1023 / 128000) * (1023 / 1024) \<le> inc * (1023 / 1024)"
    by (rule mult_right_mono) simp
  have 4: "t * (1023 / 128000) * (1023 / 1024) = t * (1046529 / 131072000)"
    by simp
  have 5: "c * (1023 / 1024) = c - c / 1024"
    by (simp add: field_simps)
  from 1 2 3 4 5 c t show ?thesis by linarith
qed

lemma updateCounter_ramp:
  assumes r: "rounds_within rnd (of_int T / 128) (2 * of_int T)" and t: "0 < T"
    and i: "of_int T * (1023 / 128000) \<le> inc" "inc \<le> of_int T * (1025 / 128000)"
  shows "0 \<le> c \<Longrightarrow> c < of_int T \<Longrightarrow> of_int T \<le> c + real (Suc n) * (of_int T / 150)
    \<Longrightarrow> \<exists>fs. updateCounter rnd inc T c = Some fs \<and> ramp_from T c fs"
proof (induction n arbitrary: c)
  case 0
  from t have t': "0 < (of_int T :: real)" by simp
  from step_progress [OF r t' "0.prems"(1,2) i] "0.prems"(3)
  have "\<not> rnd (c + inc) < of_int T" by simp
  moreover from "0.prems"(2) have "\<lfloor>c\<rfloor> \<le> T"
    by (simp add: floor_le_iff)
  ultimately have "updateCounter rnd inc T c = Some [(rnd (c + inc), T)]
      \<and> ramp_from T c [(rnd (c + inc), T)]"
    by (subst updateCounter.simps) (simp add: ramp_from_def)
  then show ?case by blast
next
  case (Suc n)
  from t have t': "0 < (of_int T :: real)" by simp
  let ?c = "rnd (c + inc)"
  from step_progress [OF r t' Suc.prems(1,2) i] have p: "c + of_int T / 150 \<le> ?c" .
  from Suc.prems(2) have cT: "\<lfloor>c\<rfloor> \<le> T"
    by (simp add: floor_le_iff)
  show ?case
  proof (cases "?c < of_int T")
    case False
    with cT have "updateCounter rnd inc T c = Some [(?c, T)] \<and> ramp_from T c [(?c, T)]"
      by (subst updateCounter.simps) (simp add: ramp_from_def)
    then show ?thesis by blast
  next
    case True
    from p t' Suc.prems(1) have c0: "0 \<le> ?c" by linarith
    from p Suc.prems(3) have "of_int T \<le> ?c + real (Suc n) * (of_int T / 150)"
      by (simp add: field_simps)
    from Suc.IH [OF c0 True this] obtain fs where
      fs: "updateCounter rnd inc T ?c = Some fs" "ramp_from T ?c fs"
      by blast
    from p t' have "c \<le> ?c" by linarith
    then have fl: "\<lfloor>c\<rfloor> \<le> \<lfloor>?c\<rfloor>" by (rule floor_mono)
    from True have flT: "\<lfloor>?c\<rfloor> \<le> T" by (simp add: floor_le_iff)
    from fs(2) fl flT True have "ramp_from T c ((?c, \<lfloor>?c\<rfloor>) # fs)"
      by (auto simp: ramp_from_def)
    moreover from fs(1) True have "updateCounter rnd inc T c = Some ((?c, \<lfloor>?c\<rfloor>) # fs)"
      by (subst updateCounter.simps) simp
    ultimately show ?thesis by blast
  qed
qed

lemma updateCounter_unfold:
  assumes "updateCounter rnd inc T c = Some fs"
  shows "(\<not> rnd (c + inc) < of_int T \<and> fs = [(rnd (c + inc), T)])
    \<or> (rnd (c + inc) < of_int T
       \<and> (\<exists>fs'. updateCounter rnd inc T (rnd (c + inc)) = Some fs'
              \<and> fs = (rnd (c + inc), \<lfloor>rnd (c + inc)\<rfloor>) # fs'))"
proof (cases "rnd (c + inc) < of_int T")
  case True
  with assms have "Option.bind (updateCounter rnd inc T (rnd (c + inc)))
      (\<lambda>frames. Some ((rnd (c + inc), \<lfloor>rnd (c + inc)\<rfloor>) # frames)) = Some fs"
    by (subst (asm) updateCounter.simps) simp
  with True show ?thesis
    by (auto simp: bind_eq_Some_conv)
next
  case False
  with assms have "fs = [(rnd (c + inc), T)]"
    by (subst (asm) updateCounter.simps) simp
  with False show ?thesis by simp
qed

lemma updateCounter_running:
  "updateCounter rnd inc T c = Some fs \<Longrightarrow> running_from rnd inc c fs"
proof (induction fs arbitrary: c)
  case Nil
  from updateCounter_unfold [OF Nil] show ?case by simp
next
  case (Cons f fs)
  from updateCounter_unfold [OF Cons.prems]
  consider "f # fs = [(rnd (c + inc), T)]"
    | fs' where "updateCounter rnd inc T (rnd (c + inc)) = Some fs'"
        "f # fs = (rnd (c + inc), \<lfloor>rnd (c + inc)\<rfloor>) # fs'"
    by blast
  then show ?case
  proof cases
    case 1
    then show ?thesis by (simp add: running_from_def)
  next
    case 2
    then have f: "f = (rnd (c + inc), \<lfloor>rnd (c + inc)\<rfloor>)"
      and u: "updateCounter rnd inc T (rnd (c + inc)) = Some fs"
      by simp_all
    from Cons.IH [OF u] have r: "fs \<noteq> []" "fst (hd fs) = rnd (rnd (c + inc) + inc)"
      "\<And>k. Suc k < length fs \<Longrightarrow> fst (fs ! Suc k) = rnd (fst (fs ! k) + inc)"
      by (simp_all add: running_from_def)
    have "fst ((f # fs) ! Suc k) = rnd (fst ((f # fs) ! k) + inc)" if "Suc k < length (f # fs)" for k
    proof (cases k)
      case 0
      with r(1,2) f show ?thesis by (simp add: hd_conv_nth)
    next
      case (Suc j)
      with that r(3) [of j] show ?thesis by simp
    qed
    with f show ?thesis by (simp add: running_from_def)
  qed
qed

lemma updateCounter_exact:
  assumes "0 < T"
  shows "k + n = 124 \<Longrightarrow>
     updateCounter (\<lambda>x. x) (of_int T / 125) T (real k * (of_int T / 125))
       = Some (map (\<lambda>j. (real j * (of_int T / 125), \<lfloor>real j * (of_int T / 125)\<rfloor>)) [Suc k..<125]
               @ [(of_int T, T)])"
proof (induction n arbitrary: k)
  case 0
  then have k: "k = 124" by simp
  have "real k * (of_int T / 125) + of_int T / 125 = of_int T"
    by (simp add: k)
  then show ?case
    by (subst updateCounter.simps) (simp add: k)
next
  case (Suc n)
  then have k: "Suc k < 125" "Suc k + n = 124" by simp_all
  have s: "real k * (of_int T / 125) + of_int T / 125 = real (Suc k) * (of_int T / 125)"
    by (simp add: field_simps)
  from assms k(1) have "real (Suc k) * (of_int T / 125) < 125 * (of_int T / 125)"
    by (intro mult_strict_right_mono) simp_all
  then have lt: "real (Suc k) * (of_int T / 125) < of_int T" by simp
  from k(1) have u: "[Suc k..<125] = Suc k # [Suc (Suc k)..<125]"
    by (simp add: upt_conv_Cons)
  from Suc.IH [OF k(2)] lt show ?case
    by (subst updateCounter.simps) (simp only: s u, simp)
qed

text \<open>
  Claim C2.  For every target \<open>T \<ge> 0\<close>, under exact arithmetic or any rounding that
  keeps 0 and has relative error at most \<open>2\<^sup>-\<^sup>1\<^sup>0\<close> between \<open>T / 128\<close> and \<open>2 T\<close>,
  \<open>animateCounter\<close> returns.  The running value of the first frame is the increment
  \<open>T / 125\<close> added to 0, and that of every later frame is the increment added to the
  running value of the frame before.  Every frame before the last has a running value
  strictly below \<open>T\<close> and renders its floor; the last frame is the first whose running
  value is no longer below \<open>T\<close>, and it renders exactly \<open>T\<close>.  The rendered values are
  non-decreasing and lie between 0 and \<open>T\<close>.  In exact arithmetic and for \<open>T > 0\<close> these
  are the 125 frames with running values \<open>k T / 125\<close> for \<open>k = 1, \<dots>, 125\<close>.
\<close>

theorem animateCounter_ramp:
  assumes "rounds_within rnd (of_int T / 128) (2 * of_int T)" and "0 \<le> T"
  shows "(\<exists>fs. animateCounter rnd (Some T) = Some fs
      \<and> fs \<noteq> [] \<and> sorted (map snd fs) \<and> snd (last fs) = T
      \<and> (\<forall>f\<in>set (butlast fs). fst f < of_int T \<and> snd f = \<lfloor>fst f\<rfloor>)
      \<and> \<not> fst (last fs) < of_int T
      \<and> (\<forall>f\<in>set fs. 0 \<le> snd f \<and> snd f \<le> T)
      \<and> fst (hd fs) = rnd (0 + rnd (of_int T / 125))
      \<and> (\<forall>k. Suc k < length fs
            \<longrightarrow> fst (fs ! Suc k) = rnd (fst (fs ! k) + rnd (of_int T / 125))))
    \<and> (0 < T \<longrightarrow> animateCounter (\<lambda>x. x) (Some T)
          = Some (map (\<lambda>k. (real k * (of_int T / 125), \<lfloor>real k * (of_int T / 125)\<rfloor>)) [1..<125]
                  @ [(of_int T, T)]))"
proof -
  have exact: "animateCounter (\<lambda>x. x) (Some T)
      = Some (map (\<lambda>k. (real k * (of_int T / 125), \<lfloor>real k * (of_int T / 125)\<rfloor>)) [1..<125]
              @ [(of_int T, T)])" if "0 < T"
    using updateCounter_exact [OF that, of 0 124] by (simp add: animateCounter_def)
  have "\<exists>fs. animateCounter rnd (Some T) = Some fs
      \<and> fs \<noteq> [] \<and> sorted (map snd fs) \<and> snd (last fs) = T
      \<and> (\<forall>f\<in>set (butlast fs). fst f < of_int T \<and> snd f = \<lfloor>fst f\<rfloor>)
      \<and> \<not> fst (last fs) < of_int T
      \<and> (\<forall>f\<in>set fs. 0 \<le> snd f \<and> snd f \<le> T)
      \<and> fst (hd fs) = rnd (0 + rnd (of_int T / 125))
      \<and> (\<forall>k. Suc k < length fs
            \<longrightarrow> fst (fs ! Suc k) = rnd (fst (fs ! k) + rnd (of_int T / 125)))"
  proof (cases "T = 0")
    case True
    from assms(1) have z: "rnd 0 = 0" by (simp add: rounds_within_def)
    have "updateCounter rnd 0 0 0 = Some [(0, 0)]"
      by (subst updateCounter.simps) (simp add: z)
    with True z have "animateCounter rnd (Some T) = Some [(0, 0)]"
      by (simp add: animateCounter_def)
    with True z show ?thesis by simp
  next
    case False
    with assms(2) have t: "0 < T" by simp
    then have t': "(0::real) < of_int T" by simp
    let ?inc = "rnd (of_int T / (2000 / 16))"
    note i = increment_bounds [OF assms(1) t']
    from t have "(of_int T :: real) \<le> 0 + real (Suc 149) * (of_int T / 150)" by simp
    with t' obtain fs where fs: "updateCounter rnd ?inc T 0 = Some fs" "ramp_from T 0 fs"
      using updateCounter_ramp [OF assms(1) t i, of 0 149] by blast
    from updateCounter_running [OF fs(1)] have "running_from rnd (rnd (of_int T / 125)) 0 fs"
      by simp
    moreover from fs(1) have "animateCounter rnd (Some T) = Some fs"
      by (simp add: animateCounter_def)
    ultimately show ?thesis using fs(2)
      by (simp add: ramp_from_def running_from_def)
  qed
  with exact show ?thesis by blast
qed

theorem animateCounter_ramp_witness:
  "rounds_within (\<lambda>x. x) (of_int 250 / 128) (2 * of_int 250) \<and> (0::int) \<le> 250 \<and> (0::int) < 250
   \<and> animateCounter (\<lambda>x. x) (Some 250)
       = Some (map (\<lambda>k. (real k * 2, \<lfloor>real k * 2\<rfloor>)) [1..<125] @ [(250, 250)])
   \<and> (\<exists>fs. animateCounter (\<lambda>x. x) (Some 250) = Some fs
      \<and> fs \<noteq> [] \<and> sorted (map snd fs) \<and> snd (last fs) = 250
      \<and> fst (hd fs) = 2
      \<and> (\<forall>f\<in>set (butlast fs). fst f < 250 \<and> snd f = \<lfloor>fst f\<rfloor>)
      \<and> (\<forall>f\<in>set fs. 0 \<le> snd f \<and> snd f \<le> 250))"
proof -
  have h: "rounds_within (\<lambda>x. x) (of_int 250 / 128) (2 * of_int 250)"
    by (simp add: rounds_within_def)
  from animateCounter_ramp [OF h] h show ?thesis
    by auto
qed

section \<open>TelegramAnimator: one playback at a time\<close>

lemma fire_single:
  "timers s = [(d, k)] \<Longrightarrow> fire s = Some (run_task k (s\<lparr>now := d, timers := []\<rparr>))"
  by (simp add: fire_def)

lemma loop_from_state:
  "timers s = [] \<Longrightarrow> loop_from i s = (evs, u) \<Longrightarrow>
     length (timers u) = 1 \<and> isAnimating u = isAnimating s \<and> messages u = messages s"
  by (auto simp: loop_from_def addMessage_def setTimer_def Let_def split: if_splits)

lemma startAnimation_state:
  "timers s = [] \<Longrightarrow> startAnimation s = (evs, u) \<Longrightarrow>
     length (timers u) = 1 \<and> isAnimating u \<and> messages u = messages s"
proof -
  assume t: "timers s = []" and st: "startAnimation s = (evs, u)"
  let ?t1 = "s\<lparr>isAnimating := True, container := [], currentMessageIndex := 0\<rparr>"
  obtain evs0 where l: "loop_from 0 ?t1 = (evs0, u)"
    using st by (cases "loop_from 0 ?t1") (simp add: startAnimation_def Let_def)
  from t have "timers ?t1 = []" by simp
  from loop_from_state [OF this l] show ?thesis by simp
qed

lemma run_task_state:
  "timers s = [] \<Longrightarrow> run_task k s = (evs, u) \<Longrightarrow>
     length (timers u) = 1 \<and> (isAnimating s \<longrightarrow> isAnimating u) \<and> messages u = messages s"
proof (cases k)
  case (TypeTick i el chars charIndex currentText)
  assume "timers s = []" "run_task k s = (evs, u)"
  with TypeTick show ?thesis
    by (auto simp: setTimer_def Let_def split: if_splits)
next
  case (MessageGap i)
  assume "timers s = []" "run_task k s = (evs, u)"
  with MessageGap loop_from_state [of s "i + 1" evs u] show ?thesis by simp
next
  case Restart
  assume "timers s = []" "run_task k s = (evs, u)"
  with Restart startAnimation_state [of "s\<lparr>isAnimating := False\<rparr>" evs u] show ?thesis by simp
qed

lemma fire_state:
  assumes "length (timers s) = 1"
  shows "\<exists>evs u. fire s = Some (evs, u) \<and> length (timers u) = 1
           \<and> (isAnimating s \<longrightarrow> isAnimating u) \<and> messages u = messages s"
proof -
  from assms obtain d k where t: "timers s = [(d, k)]"
    by (cases "timers s") auto
  obtain evs u where r: "run_task k (s\<lparr>now := d, timers := []\<rparr>) = (evs, u)"
    by (cases "run_task k (s\<lparr>now := d, timers := []\<rparr>)")
  from run_task_state [OF _ r] fire_single [OF t] r show ?thesis by simp
qed

lemma observe_entry_animating:
  "isAnimating s \<Longrightarrow> observe_entry (evs, s) entry = (evs, s)"
  by (simp add: observe_entry_def)

lemma observer_callback_fold_animating:
  "isAnimating s \<Longrightarrow> foldl observe_entry (evs, s) entries = (evs, s)"
  by (induction entries) (simp_all add: observe_entry_animating)

lemma observer_callback_animating:
  "isAnimating s \<Longrightarrow> observer_callback entries s = ([], s)"
  by (simp add: observer_callback_def observer_callback_fold_animating)

lemma observer_callback_fold_hidden:
  "\<forall>e\<in>set entries. \<not> e \<Longrightarrow> foldl observe_entry (evs, s) entries = (evs, s)"
  by (induction entries) (auto simp: observe_entry_def)

lemma observer_callback_hidden:
  "\<not> (\<exists>e\<in>set entries. e) \<Longrightarrow> observer_callback entries s = ([], s)"
  by (simp add: observer_callback_def observer_callback_fold_hidden)

lemma startAnimation_animating: "isAnimating (snd (startAnimation s))"
  by (simp add: startAnimation_def loop_from_def addMessage_def setTimer_def Let_def
      split: prod.splits if_splits)

lemma observer_callback_starts:
  assumes "\<not> isAnimating s" and "\<exists>e\<in>set entries. e"
  shows "observer_callback entries s = startAnimation s"
  using assms(2) unfolding observer_callback_def
proof (induction entries)
  case Nil
  then show ?case by simp
next
  case (Cons e es)
  show ?case
  proof (cases e)
    case True
    obtain evs u where st: "startAnimation s = (evs, u)"
      by (cases "startAnimation s")
    with startAnimation_animating [of s] have u: "isAnimating u" by simp
    from st True assms(1) have "observe_entry ([], s) e = (evs, u)"
      by (simp add: observe_entry_def)
    with st u show ?thesis
      by (simp add: observer_callback_fold_animating)
  next
    case False
    with Cons show ?thesis by (simp add: observe_entry_def)
  qed
qed

lemma one_playback_callback:
  "one_playback s \<Longrightarrow> one_playback (snd (observer_callback entries s))"
proof (cases "isAnimating s \<or> \<not> (\<exists>e\<in>set entries. e)")
  case True
  assume "one_playback s"
  with True show ?thesis
    by (auto simp: observer_callback_animating observer_callback_hidden)
next
  case False
  assume o: "one_playback s"
  with False have t: "timers s = []" by (simp add: one_playback_def)
  obtain evs u where st: "startAnimation s = (evs, u)"
    by (cases "startAnimation s")
  from startAnimation_state [OF t st] have "length (timers u) = 1" "isAnimating u"
    by simp_all
  moreover from this have "timers u \<noteq> []" by auto
  ultimately show ?thesis using False st
    by (simp add: observer_callback_starts one_playback_def)
qed

lemma one_playback_step: "one_playback s \<Longrightarrow> one_playback (page_step s ev)"
proof (cases ev)
  case (Visibility entries)
  assume "one_playback s"
  with Visibility show ?thesis by (simp add: one_playback_callback)
next
  case TimerFires
  assume o: "one_playback s"
  show ?thesis
  proof (cases "timers s = []")
    case True
    with o TimerFires show ?thesis by (simp add: fire_def)
  next
    case False
    with o have l: "length (timers s) = 1" and a: "isAnimating s"
      by (cases "timers s"; simp add: one_playback_def)+
    from fire_state [OF l] a TimerFires show ?thesis
      by (auto simp: one_playback_def)
  qed
qed

lemma one_playback_run: "one_playback s \<Longrightarrow> one_playback (page_run evs s)"
  unfolding page_run_def
  by (induction evs arbitrary: s) (simp_all add: one_playback_step)

lemma one_playback_new: "one_playback (new_TelegramAnimator script)"
  by (simp add: one_playback_def new_TelegramAnimator_def)

text \<open>
  Claim C4.  While \<open>isAnimating\<close> is true a visibility notification changes nothing: no
  playback is started and nothing is recorded for later.  A notification starts a
  playback exactly when \<open>isAnimating\<close> is false and some entry is intersecting, and then
  it starts one playback, whatever the number of entries.  In every state the page can
  reach, at most one timer of the animator is pending, and one is pending exactly when
  \<open>isAnimating\<close> is true.
\<close>

theorem visibility_guard:
  "(isAnimating this \<longrightarrow> observer_callback entries this = ([], this))
   \<and> (\<not> isAnimating this \<and> (\<exists>e\<in>set entries. e)
        \<longrightarrow> observer_callback entries this = startAnimation this)
   \<and> (\<not> (\<exists>e\<in>set entries. e) \<longrightarrow> observer_callback entries this = ([], this))
   \<and> length (timers (page_run evs (new_TelegramAnimator script))) \<le> 1
   \<and> isAnimating (page_run evs (new_TelegramAnimator script))
       = (timers (page_run evs (new_TelegramAnimator script)) \<noteq> [])"
proof -
  have "one_playback (page_run evs (new_TelegramAnimator script))"
    by (simp add: one_playback_run one_playback_new)
  then show ?thesis
    by (simp add: one_playback_def observer_callback_animating observer_callback_starts
        observer_callback_hidden)
qed

theorem visibility_guard_witness:
  "\<not> isAnimating (new_TelegramAnimator demo_script)
   \<and> (\<exists>e\<in>set [False, True, True]. e)
   \<and> observer_callback [False, True, True] (new_TelegramAnimator demo_script)
       = startAnimation (new_TelegramAnimator demo_script)
   \<and> isAnimating (snd (startAnimation (new_TelegramAnimator demo_script)))
   \<and> observer_callback [True, True] (snd (startAnimation (new_TelegramAnimator demo_script)))
       = ([], snd (startAnimation (new_TelegramAnimator demo_script)))
   \<and> \<not> (\<exists>e\<in>set [False, False]. e)
   \<and> observer_callback [False, False] (new_TelegramAnimator demo_script)
       = ([], new_TelegramAnimator demo_script)
   \<and> length (timers (page_run [Visibility [True, True], TimerFires, Visibility [True], TimerFires]
         (new_TelegramAnimator demo_script))) \<le> 1
   \<and> isAnimating (page_run [Visibility [True, True], TimerFires, Visibility [True], TimerFires]
         (new_TelegramAnimator demo_script))"
proof -
  let ?new = "new_TelegramAnimator demo_script"
  let ?evs = "[Visibility [True, True], TimerFires, Visibility [True], TimerFires]"
  have a: "\<not> isAnimating ?new"
    by (simp add: new_TelegramAnimator_def)
  have b: "isAnimating (snd (startAnimation ?new))"
    by (rule startAnimation_animating)
  have c: "timers (page_run ?evs ?new) = [(150, TypeTick 0 0 (js_str ''Hi'') 2 (js_str ''Hi''))]"
    by (simp add: page_run_def observer_callback_def observe_entry_def startAnimation_def
        loop_from_def addMessage_def setTimer_def fire_def Let_def new_TelegramAnimator_def
        demo_script_def js_str_def)
  from visibility_guard [of ?new "[False, True, True]" "[]" demo_script]
       visibility_guard [of "snd (startAnimation ?new)" "[True, True]" "[]" demo_script]
       visibility_guard [of ?new "[False, False]" ?evs demo_script] a b c
  show ?thesis by simp
qed

section \<open>TelegramAnimator: the timeline of one cycle and of all cycles\<close>



















end
